theory Spec2Isabelle
  imports Main
begin

section \<open>Values, closures and the observable state\<close>

text \<open>
  The integration in \<^verbatim>\<open>packages/tracing/src/integrations/express.ts\<close> builds closures
  around middleware functions and replaces \<^verbatim>\<open>app.use\<close>. JavaScript functions are
  first-class values that capture variables, so the embedding is defunctionalised: every
  function expression of the source file is one constructor of \<open>callable\<close>, carrying
  the variables it captures, and \<open>invoke\<close> (below) gives the body of each.
  Functions written elsewhere (the user's middlewares, the framework's \<^verbatim>\<open>next\<close>, the
  original \<^verbatim>\<open>app.use\<close>) are \<open>Host\<close> functions: an identity, the \<^verbatim>\<open>name\<close> and the
  \<^verbatim>\<open>length\<close> property, and a body supplied by an environment.
\<close>

datatype js_error =
    Error string    \<comment> \<open>\<^verbatim>\<open>new Error(message)\<close>\<close>
  | TypeError       \<comment> \<open>raised by the engine: property read on \<^verbatim>\<open>undefined\<close>/\<^verbatim>\<open>null\<close>, call of a non-function\<close>

datatype val =
    Undefined
  | Null
  | Bool bool
  | Num int
  | Str string
  | Obj nat             \<comment> \<open>an opaque object, e.g. the request\<close>
  | Res nat             \<comment> \<open>reference to a response object\<close>
  | App nat             \<comment> \<open>reference to an application instance\<close>
  | Exn js_error        \<comment> \<open>an error object\<close>
  | Arr "val list"
  | Fun callable
and callable =
    Host nat string nat         \<comment> \<open>identity, \<^verbatim>\<open>name\<close>, \<^verbatim>\<open>length\<close>; defined outside this file\<close>
  | Wrap2 callable              \<comment> \<open>the function returned by \<^verbatim>\<open>wrap\<close>, case 2; captures \<^verbatim>\<open>fn\<close>\<close>
  | Wrap3 callable              \<comment> \<open>case 3; captures \<^verbatim>\<open>fn\<close>\<close>
  | Wrap4 callable              \<comment> \<open>case 4; captures \<^verbatim>\<open>fn\<close>\<close>
  | FinishListener nat          \<comment> \<open>\<^verbatim>\<open>() => { span.finish(); }\<close>; captures \<^verbatim>\<open>span\<close>\<close>
  | SubstNext "nat option" val  \<comment> \<open>the continuation handed to \<^verbatim>\<open>fn\<close> in cases 3 and 4; captures \<^verbatim>\<open>span\<close>, \<^verbatim>\<open>next\<close>\<close>
  | PatchedUse val              \<comment> \<open>the replacement of \<^verbatim>\<open>app.use\<close>; captures \<^verbatim>\<open>originalAppUse\<close>\<close>

datatype outcome = Return val | Throw val

text \<open>
  The body of a host function, as far as it can be observed from this file: it calls
  function values (and sees how each call ends, so it can catch), emits events on a
  response, and finally returns or throws.
\<close>

datatype prog =
    Done outcome
  | Call val val "val list" "outcome \<Rightarrow> prog"   \<comment> \<open>callee, \<^verbatim>\<open>this\<close>, arguments, rest of the body\<close>
  | Emit val string "outcome \<Rightarrow> prog"           \<comment> \<open>\<^verbatim>\<open>target.emit(event)\<close>, rest of the body\<close>

type_synonym env = "nat \<Rightarrow> val \<Rightarrow> val list \<Rightarrow> prog"

datatype event =
    StartChild nat string string nat   \<comment> \<open>transaction, description, op, the span created\<close>
  | SpanFinish nat
  | OnceRegistered nat string callable \<comment> \<open>response, event name, listener\<close>
  | Enter nat val "val list"           \<comment> \<open>a host function's body starts: identity, \<^verbatim>\<open>this\<close>, arguments\<close>
  | LoggerError string

record response =
  sentry_transaction :: "nat option"          \<comment> \<open>\<^verbatim>\<open>__sentry_transaction?: Transaction\<close>\<close>
  once_listeners :: "(string \<times> callable) list"

record application =
  use :: val

record state =
  responses :: "nat \<Rightarrow> response"
  apps :: "nat \<Rightarrow> application"
  next_span :: nat
  trace :: "event list"

definition log :: "event \<Rightarrow> state \<Rightarrow> state" where
  "log e st = st\<lparr>trace := trace st @ [e]\<rparr>"

section \<open>The collaborators\<close>

text \<open>
  Modelled from the spec: \<^verbatim>\<open>Transaction.startChild\<close> of \<^verbatim>\<open>@sentry/types\<close> is not in the
  source tree. Section 6 gives \<^verbatim>\<open>startChild(descriptor: {description, op}) -> Span\<close>:
  the call is recorded and yields a span not handed out before.
\<close>

definition startChild :: "nat \<Rightarrow> string \<Rightarrow> string \<Rightarrow> state \<Rightarrow> nat \<times> state" where
  "startChild transaction description op st =
     (next_span st,
      log (StartChild transaction description op (next_span st)) (st\<lparr>next_span := Suc (next_span st)\<rparr>))"

text \<open>
  Modelled from the spec: \<^verbatim>\<open>Span.finish() -> void\<close> (section 6); the call is recorded.
\<close>

definition span_finish :: "nat \<Rightarrow> state \<Rightarrow> state" where
  "span_finish span st = log (SpanFinish span) st"

text \<open>
  Modelled from the spec: the logging facility's \<^verbatim>\<open>error(message) -> void\<close> (section 6).
\<close>

definition logger_error :: "string \<Rightarrow> state \<Rightarrow> state" where
  "logger_error msg st = log (LoggerError msg) st"

text \<open>
  Modelled from the spec: the response's ``one-shot event subscription mechanism''
  (section 6), i.e. \<^verbatim>\<open>res.once(event, listener)\<close>: the listener is appended to the
  response's listeners and is removed when it fires (see \<open>fire\<close>).
\<close>

definition res_once :: "nat \<Rightarrow> string \<Rightarrow> callable \<Rightarrow> state \<Rightarrow> state" where
  "res_once r ev l st =
     log (OnceRegistered r ev l)
       (st\<lparr>responses := (responses st)
              (r := (responses st r)\<lparr>once_listeners := once_listeners (responses st r) @ [(ev, l)]\<rparr>)\<rparr>)"

text \<open>
  Modelled from the spec: what makes the subscription one-shot. A listener leaves the
  response's list when it is fired; \<open>listeners_for\<close> is the snapshot of the listeners
  of one event, in their order of registration.
\<close>

definition remove_listener :: "nat \<Rightarrow> string \<Rightarrow> callable \<Rightarrow> state \<Rightarrow> state" where
  "remove_listener r ev l st =
     st\<lparr>responses := (responses st)
           (r := (responses st r)\<lparr>once_listeners := remove1 (ev, l) (once_listeners (responses st r))\<rparr>)\<rparr>"

definition listeners_for :: "nat \<Rightarrow> string \<Rightarrow> state \<Rightarrow> callable list" where
  "listeners_for r ev st = map snd (filter (\<lambda>p. fst p = ev) (once_listeners (responses st r)))"

section \<open>Properties of function objects\<close>

text \<open>
  \<^verbatim>\<open>fn.length\<close> is the number of declared parameters (\<^verbatim>\<open>this\<close> annotations are
  erased), \<^verbatim>\<open>fn.name\<close> is empty for the anonymous function expressions of this file.
\<close>

fun fn_length :: "callable \<Rightarrow> nat" where
  "fn_length (Host _ _ n) = n"
| "fn_length (Wrap2 _) = 2"
| "fn_length (Wrap3 _) = 3"
| "fn_length (Wrap4 _) = 4"
| "fn_length (FinishListener _) = 0"
| "fn_length (SubstNext _ _) = 0"
| "fn_length (PatchedUse _) = 0"

fun fn_name :: "callable \<Rightarrow> string" where
  "fn_name (Host _ nm _) = nm"
| "fn_name _ = []"

definition arg :: "val list \<Rightarrow> nat \<Rightarrow> val" where
  "arg args i = (if i < length args then args ! i else Undefined)"

text \<open>
  \<^verbatim>\<open>res.__sentry_transaction\<close>: reading a property of \<^verbatim>\<open>undefined\<close> or \<^verbatim>\<open>null\<close>
  throws; any other value that is not a response has no such property.
\<close>

definition get_transaction :: "state \<Rightarrow> val \<Rightarrow> js_error + nat option" where
  "get_transaction st res =
     (case res of
        Undefined \<Rightarrow> Inl TypeError
      | Null \<Rightarrow> Inl TypeError
      | Res r \<Rightarrow> Inr (sentry_transaction (responses st r))
      | _ \<Rightarrow> Inr None)"

section \<open>wrap\<close>

fun show_nat :: "nat \<Rightarrow> string" where
  "show_nat n =
     (if n < 10 then [''0123456789'' ! n]
      else show_nat (n div 10) @ [''0123456789'' ! (n mod 10)])"

declare show_nat.simps [simp del]

definition wrap :: "callable \<Rightarrow> js_error + callable" where
  "wrap fn =
     (let arrity = fn_length fn in
      if arrity = 2 then Inr (Wrap2 fn)
      else if arrity = 3 then Inr (Wrap3 fn)
      else if arrity = 4 then Inr (Wrap4 fn)
      else Inl (Error (''Express middleware takes 2-4 arguments. Got: '' @ show_nat arrity)))"

section \<open>wrapUseArgs\<close>

text \<open>\<^verbatim>\<open>Array.prototype.map\<close> with a callback that may throw: the first throw ends the map.\<close>

fun array_map :: "('a \<Rightarrow> js_error + 'b) \<Rightarrow> 'a list \<Rightarrow> js_error + 'b list" where
  "array_map f [] = Inr []"
| "array_map f (x # xs) =
     (case f x of
        Inl e \<Rightarrow> Inl e
      | Inr y \<Rightarrow> (case array_map f xs of Inl e \<Rightarrow> Inl e | Inr ys \<Rightarrow> Inr (y # ys)))"

text \<open>The inner callback \<^verbatim>\<open>(a) => typeof a === 'function' ? wrap(a) : a\<close>.\<close>

definition wrapElem :: "val \<Rightarrow> js_error + val" where
  "wrapElem a =
     (case a of
        Fun f \<Rightarrow> (case wrap f of Inl e \<Rightarrow> Inl e | Inr w \<Rightarrow> Inr (Fun w))
      | _ \<Rightarrow> Inr a)"

text \<open>The outer callback of \<^verbatim>\<open>wrapUseArgs\<close>.\<close>

definition wrapArg :: "val \<Rightarrow> js_error + val" where
  "wrapArg a =
     (case a of
        Fun f \<Rightarrow> (case wrap f of Inl e \<Rightarrow> Inl e | Inr w \<Rightarrow> Inr (Fun w))
      | Arr xs \<Rightarrow> (case array_map wrapElem xs of Inl e \<Rightarrow> Inl e | Inr ys \<Rightarrow> Inr (Arr ys))
      | _ \<Rightarrow> Inr a)"

definition wrapUseArgs :: "val list \<Rightarrow> js_error + val list" where
  "wrapUseArgs args = array_map wrapArg args"

section \<open>Calling functions\<close>

text \<open>
  \<open>invoke env n f this args st\<close> calls \<open>f\<close> with the given \<^verbatim>\<open>this\<close> and argument list;
  \<open>run\<close> executes a host body; \<open>fire\<close> delivers an event to a snapshot of listeners.
  A host body may call anything it was given, itself included, so the interpreter takes
  fuel \<open>n\<close> and \<open>None\<close> means that the fuel ran out.

  The equations of \<open>Wrap2\<close>, \<open>Wrap3\<close>, \<open>Wrap4\<close>, \<open>FinishListener\<close>, \<open>SubstNext\<close> and
  \<open>PatchedUse\<close> are the bodies of the function expressions of the source file. In
  cases 3 and 4 the source calls \<^verbatim>\<open>fn.call(this, req, res, function ...)\<close> as a statement:
  a throw propagates and the value returned is dropped (\<open>discard\<close>). In case 2 a
  transaction can only have been read off a response, which is then the receiver of
  \<^verbatim>\<open>res.once\<close>. In \<open>PatchedUse\<close> the order is the one of
  \<^verbatim>\<open>originalAppUse.apply(this, wrapUseArgs(arguments))\<close>: the property \<^verbatim>\<open>apply\<close> is read
  first, then the arguments are wrapped, then the call is made.

  Modelled from the spec: the delivery of an event (\<open>fire\<close>, \<open>emit\<close>) belongs to the
  framework's response object, which is not in the source tree; section 6 asks for a
  one-shot subscription, so a listener is removed from the response when it is about to
  run, and a listener that throws ends the delivery. The value \<^verbatim>\<open>emit\<close> returns is
  not modelled.
\<close>

definition discard :: "(outcome \<times> state) option \<Rightarrow> (outcome \<times> state) option" where
  "discard r =
     (case r of
        None \<Rightarrow> None
      | Some (Return _, st) \<Rightarrow> Some (Return Undefined, st)
      | Some (Throw e, st) \<Rightarrow> Some (Throw e, st))"

fun invoke :: "env \<Rightarrow> nat \<Rightarrow> callable \<Rightarrow> val \<Rightarrow> val list \<Rightarrow> state \<Rightarrow> (outcome \<times> state) option"
and run :: "env \<Rightarrow> nat \<Rightarrow> prog \<Rightarrow> state \<Rightarrow> (outcome \<times> state) option"
and fire :: "env \<Rightarrow> nat \<Rightarrow> nat \<Rightarrow> string \<Rightarrow> callable list \<Rightarrow> state \<Rightarrow> (outcome \<times> state) option"
where
  "invoke env 0 f this args st = None"
| "invoke env (Suc n) (Host h nm ar) this args st =
     run env n (env h this args) (log (Enter h this args) st)"
| "invoke env (Suc n) (Wrap2 fn) this args st =
     (case get_transaction st (arg args 1) of
        Inl e \<Rightarrow> Some (Throw (Exn e), st)
      | Inr None \<Rightarrow> invoke env n fn this args st
      | Inr (Some transaction) \<Rightarrow>
          (case arg args 1 of
             Res r \<Rightarrow>
               (let (span, st1) = startChild transaction (fn_name fn) ''middleware'' st;
                    st2 = res_once r ''finish'' (FinishListener span) st1
                in invoke env n fn this args st2)
           | _ \<Rightarrow> Some (Throw (Exn TypeError), st)))"
| "invoke env (Suc n) (Wrap3 fn) this args st =
     (case get_transaction st (arg args 1) of
        Inl e \<Rightarrow> Some (Throw (Exn e), st)
      | Inr None \<Rightarrow>
          discard (invoke env n fn this [arg args 0, arg args 1, Fun (SubstNext None (arg args 2))] st)
      | Inr (Some transaction) \<Rightarrow>
          (let (span, st1) = startChild transaction (fn_name fn) ''middleware'' st
           in discard (invoke env n fn this
                         [arg args 0, arg args 1, Fun (SubstNext (Some span) (arg args 2))] st1)))"
| "invoke env (Suc n) (Wrap4 fn) this args st =
     (case get_transaction st (arg args 2) of
        Inl e \<Rightarrow> Some (Throw (Exn e), st)
      | Inr None \<Rightarrow>
          discard (invoke env n fn this
                     [arg args 0, arg args 1, arg args 2, Fun (SubstNext None (arg args 3))] st)
      | Inr (Some transaction) \<Rightarrow>
          (let (span, st1) = startChild transaction (fn_name fn) ''middleware'' st
           in discard (invoke env n fn this
                         [arg args 0, arg args 1, arg args 2, Fun (SubstNext (Some span) (arg args 3))] st1)))"
| "invoke env (Suc n) (FinishListener span) this args st =
     Some (Return Undefined, span_finish span st)"
| "invoke env (Suc n) (SubstNext span nxt) this args st =
     (let st1 = (case span of None \<Rightarrow> st | Some s \<Rightarrow> span_finish s st)
      in case nxt of
           Fun f \<Rightarrow> invoke env n f this args st1
         | _ \<Rightarrow> Some (Throw (Exn TypeError), st1))"
| "invoke env (Suc n) (PatchedUse originalAppUse) this args st =
     (case originalAppUse of
        Undefined \<Rightarrow> Some (Throw (Exn TypeError), st)
      | Null \<Rightarrow> Some (Throw (Exn TypeError), st)
      | _ \<Rightarrow>
          (case wrapUseArgs args of
             Inl e \<Rightarrow> Some (Throw (Exn e), st)
           | Inr args' \<Rightarrow>
               (case originalAppUse of
                  Fun f \<Rightarrow> invoke env n f this args' st
                | _ \<Rightarrow> Some (Throw (Exn TypeError), st))))"
| "run env 0 p st = None"
| "run env (Suc n) (Done r) st = Some (r, st)"
| "run env (Suc n) (Call f this args k) st =
     (case f of
        Fun c \<Rightarrow>
          (case invoke env n c this args st of
             None \<Rightarrow> None
           | Some (r, st') \<Rightarrow> run env n (k r) st')
      | _ \<Rightarrow> run env n (k (Throw (Exn TypeError))) st)"
| "run env (Suc n) (Emit target ev k) st =
     (case target of
        Res r \<Rightarrow>
          (case fire env n r ev (listeners_for r ev st) st of
             None \<Rightarrow> None
           | Some (r', st') \<Rightarrow> run env n (k r') st')
      | _ \<Rightarrow> run env n (k (Throw (Exn TypeError))) st)"
| "fire env 0 r ev ls st = None"
| "fire env (Suc n) r ev [] st = Some (Return Undefined, st)"
| "fire env (Suc n) r ev (l # ls) st =
     (case invoke env n l (Res r) [] (remove_listener r ev l st) of
        None \<Rightarrow> None
      | Some (Return _, st') \<Rightarrow> fire env n r ev ls st'
      | Some (Throw e, st') \<Rightarrow> Some (Throw e, st'))"

text \<open>
  Modelled from the spec: \<^verbatim>\<open>res.emit(event)\<close> as the framework calls it when the
  response completes; the listeners registered for the event at that moment are fired in
  their order of registration.
\<close>

definition emit :: "env \<Rightarrow> nat \<Rightarrow> nat \<Rightarrow> string \<Rightarrow> state \<Rightarrow> (outcome \<times> state) option" where
  "emit env n r ev st = fire env n r ev (listeners_for r ev st) st"

section \<open>instrumentMiddlewares and the integration\<close>

definition instrumentMiddlewares :: "nat \<Rightarrow> state \<Rightarrow> val \<times> state" where
  "instrumentMiddlewares app st =
     (let originalAppUse = use (apps st app)
      in (App app, st\<lparr>apps := (apps st)(app := (apps st app)\<lparr>use := Fun (PatchedUse originalAppUse)\<rparr>)\<rparr>))"

record express =
  name :: string
  app_opt :: "nat option"    \<comment> \<open>\<^verbatim>\<open>private readonly _app?: Application\<close>\<close>

definition Express_id :: string where
  "Express_id = ''Express''"

definition Express_new :: "nat option \<Rightarrow> express" where
  "Express_new options_app = \<lparr>name = Express_id, app_opt = options_app\<rparr>"

definition setupOnce :: "express \<Rightarrow> state \<Rightarrow> outcome \<times> state" where
  "setupOnce this st =
     (case app_opt this of
        None \<Rightarrow> (Return Undefined, logger_error ''ExpressIntegration is missing an Express instance'' st)
      | Some app \<Rightarrow> (Return Undefined, snd (instrumentMiddlewares app st)))"

text \<open>\<^verbatim>\<open>app.use(...args)\<close>: a method call on the application.\<close>

definition app_use :: "env \<Rightarrow> nat \<Rightarrow> nat \<Rightarrow> val list \<Rightarrow> state \<Rightarrow> (outcome \<times> state) option" where
  "app_use env n app args st =
     (case use (apps st app) of
        Fun f \<Rightarrow> invoke env n f (App app) args st
      | _ \<Rightarrow> Some (Throw (Exn TypeError), st))"

text \<open>The framework emitting the same event \<open>k\<close> times in a row on a response.\<close>

fun emit_times :: "env \<Rightarrow> nat \<Rightarrow> nat \<Rightarrow> string \<Rightarrow> nat \<Rightarrow> state \<Rightarrow> (outcome \<times> state) option" where
  "emit_times env n r ev 0 st = Some (Return Undefined, st)"
| "emit_times env n r ev (Suc k) st =
     (case emit env n r ev st of
        None \<Rightarrow> None
      | Some (Return _, st') \<Rightarrow> emit_times env n r ev k st'
      | Some (Throw e, st') \<Rightarrow> Some (Throw e, st'))"

section \<open>Concrete scenarios\<close>

text \<open>
  States and host environments on which the statements below are evaluated: a state
  where no response carries a transaction, one where every response carries transaction
  \<open>7\<close>, a host environment whose functions all return \<open>42\<close> at once, and one whose
  function \<open>0\<close> is a middleware calling its third argument twice, and one whose
  functions \<open>0\<close> and \<open>2\<close> call their continuation once; one whose function \<open>0\<close>
  calls \<^verbatim>\<open>arguments[3]\<close> and ends as that call ends; a state whose applications have the
  host function \<open>9\<close> as \<^verbatim>\<open>use\<close>.
\<close>

definition st0 :: state where
  "st0 = \<lparr>responses = (\<lambda>_. \<lparr>sentry_transaction = None, once_listeners = []\<rparr>),
          apps = (\<lambda>_. \<lparr>use = Undefined\<rparr>), next_span = 0, trace = []\<rparr>"

definition st_tx :: state where
  "st_tx = \<lparr>responses = (\<lambda>_. \<lparr>sentry_transaction = Some 7, once_listeners = []\<rparr>),
          apps = (\<lambda>_. \<lparr>use = Undefined\<rparr>), next_span = 0, trace = []\<rparr>"

definition env_answer :: env where
  "env_answer h this args = Done (Return (Num 42))"

definition env_twice :: env where
  "env_twice h this args =
     (if h = 0 then
        Call (arg args 2) Undefined [] (\<lambda>_. Call (arg args 2) Undefined [] (\<lambda>_. Done (Return Undefined)))
      else Done (Return Undefined))"

definition env_once :: env where
  "env_once h this args =
     (if h = 0 then Call (arg args 2) (Obj 5) [Num 1, Num 2] (\<lambda>_. Done (Return (Num 3)))
      else if h = 2 then Call (arg args 3) (Obj 5) [Num 1, Num 2] (\<lambda>_. Done (Return (Num 3)))
      else Done (Return Undefined))"

definition env_extra :: env where
  "env_extra h this args =
     (if h = 0 then Call (arg args 3) Undefined [] (\<lambda>r. Done r) else Done (Return Undefined))"

definition st_app :: state where
  "st_app = st0\<lparr>apps := (\<lambda>_. \<lparr>use = Fun (Host 9 ''use'' 1)\<rparr>)\<rparr>"

section \<open>Basic facts\<close>

lemma span_finish_eq: "span_finish s st = st\<lparr>trace := trace st @ [SpanFinish s]\<rparr>"
  by (simp add: span_finish_def log_def)

lemma startChild_eq:
  "startChild t d op st =
     (next_span st, st\<lparr>next_span := Suc (next_span st), trace := trace st @ [StartChild t d op (next_span st)]\<rparr>)"
  by (simp add: startChild_def log_def)

lemma res_once_eq:
  "res_once r ev l st =
     st\<lparr>responses := (responses st)
           (r := (responses st r)\<lparr>once_listeners := once_listeners (responses st r) @ [(ev, l)]\<rparr>),
        trace := trace st @ [OnceRegistered r ev l]\<rparr>"
  by (simp add: res_once_def log_def)

lemma array_map_Inr_iff:
  "array_map f xs = Inr ys \<longleftrightarrow> length ys = length xs \<and> (\<forall>i<length xs. f (xs ! i) = Inr (ys ! i))"
proof (induction xs arbitrary: ys)
  case Nil
  then show ?case by auto
next
  case (Cons x xs)
  show ?case
  proof (cases ys)
    case Nil
    then show ?thesis by (auto split: sum.splits)
  next
    case (Cons y ys')
    then show ?thesis using Cons.IH [of ys']
      by (auto split: sum.splits simp: nth_Cons split: nat.splits)
  qed
qed

lemma array_map_Inl_iff:
  "(\<exists>e. array_map f xs = Inl e) \<longleftrightarrow> (\<exists>x\<in>set xs. \<exists>e. f x = Inl e)"
  by (induction xs) (auto split: sum.splits)

lemma array_map_Inl_elem: "array_map f xs = Inl e \<Longrightarrow> \<exists>x\<in>set xs. f x = Inl e"
  by (induction xs) (auto split: sum.splits)

lemma wrap_Inr_iff: "(\<exists>w. wrap f = Inr w) \<longleftrightarrow> fn_length f \<in> {2, 3, 4}"
  by (auto simp: wrap_def Let_def)

lemma wrap_Inl_iff: "(\<exists>e. wrap f = Inl e) \<longleftrightarrow> fn_length f \<notin> {2, 3, 4}"
  by (auto simp: wrap_def Let_def)

lemma wrap_Inl_msg:
  "wrap f = Inl e \<Longrightarrow>
     fn_length f \<notin> {2, 3, 4} \<and> e = Error (''Express middleware takes 2-4 arguments. Got: '' @ show_nat (fn_length f))"
  by (auto simp: wrap_def Let_def split: if_splits)

lemma wrap_cases:
  "wrap f = Inr w \<Longrightarrow>
     (fn_length f = 2 \<and> w = Wrap2 f) \<or> (fn_length f = 3 \<and> w = Wrap3 f) \<or> (fn_length f = 4 \<and> w = Wrap4 f)"
  by (auto simp: wrap_def Let_def split: if_splits)

lemma wrapElem_Inl_iff:
  "(\<exists>e. wrapElem a = Inl e) \<longleftrightarrow> (\<exists>f. a = Fun f \<and> fn_length f \<notin> {2, 3, 4})"
  by (cases a) (auto simp: wrapElem_def wrap_def Let_def)

lemma wrapArg_Inl_iff:
  "(\<exists>e. wrapArg a = Inl e) \<longleftrightarrow>
     (\<exists>f. (a = Fun f \<or> (\<exists>xs. a = Arr xs \<and> Fun f \<in> set xs)) \<and> fn_length f \<notin> {2, 3, 4})"
proof (cases a)
  case (Arr xs)
  have "(\<exists>e. wrapArg a = Inl e) \<longleftrightarrow> (\<exists>e. array_map wrapElem xs = Inl e)"
    using Arr by (auto simp: wrapArg_def split: sum.splits)
  also have "\<dots> \<longleftrightarrow> (\<exists>x\<in>set xs. \<exists>f. x = Fun f \<and> fn_length f \<notin> {2, 3, 4})"
    by (simp add: array_map_Inl_iff wrapElem_Inl_iff)
  finally show ?thesis using Arr by auto
next
  case (Fun f)
  then show ?thesis using wrap_Inl_iff [of f] by (auto simp: wrapArg_def split: sum.splits)
qed (auto simp: wrapArg_def)

lemma wrapUseArgs_Inl_iff:
  "(\<exists>e. wrapUseArgs args = Inl e) \<longleftrightarrow>
     (\<exists>f. (Fun f \<in> set args \<or> (\<exists>xs. Arr xs \<in> set args \<and> Fun f \<in> set xs)) \<and> fn_length f \<notin> {2, 3, 4})"
  unfolding wrapUseArgs_def array_map_Inl_iff wrapArg_Inl_iff by blast

lemma wrapElem_Inl_msg:
  "wrapElem a = Inl e \<Longrightarrow>
     \<exists>k. k \<notin> {2, 3, 4} \<and> e = Error (''Express middleware takes 2-4 arguments. Got: '' @ show_nat k)"
  by (cases a) (auto simp: wrapElem_def split: sum.splits dest!: wrap_Inl_msg)

lemma wrapArg_Inl_msg:
  "wrapArg a = Inl e \<Longrightarrow>
     \<exists>k. k \<notin> {2, 3, 4} \<and> e = Error (''Express middleware takes 2-4 arguments. Got: '' @ show_nat k)"
proof (cases a)
  case (Arr xs)
  assume "wrapArg a = Inl e"
  with Arr have "array_map wrapElem xs = Inl e"
    by (auto simp: wrapArg_def split: sum.splits)
  from array_map_Inl_elem [OF this] wrapElem_Inl_msg show ?thesis by blast
next
  case (Fun f)
  assume "wrapArg a = Inl e"
  with Fun have "wrap f = Inl e" by (auto simp: wrapArg_def split: sum.splits)
  from wrap_Inl_msg [OF this] show ?thesis by blast
qed (auto simp: wrapArg_def)

lemma wrapUseArgs_Inl_msg:
  "wrapUseArgs args = Inl e \<Longrightarrow>
     \<exists>k. k \<notin> {2, 3, 4} \<and> e = Error (''Express middleware takes 2-4 arguments. Got: '' @ show_nat k)"
  unfolding wrapUseArgs_def using array_map_Inl_elem wrapArg_Inl_msg by blast

lemma invoke_PatchedUse_Inl:
  "wrapUseArgs args = Inl e \<Longrightarrow>
     invoke env (Suc n) (PatchedUse (Fun orig)) this args st = Some (Throw (Exn e), st)"
  by simp

lemma invoke_PatchedUse_Inr:
  "wrapUseArgs args = Inr args' \<Longrightarrow>
     invoke env (Suc n) (PatchedUse (Fun orig)) this args st = invoke env n orig this args' st"
  by simp

lemma app_use_instrumented:
  "use (apps st a) = Fun orig \<Longrightarrow>
     app_use env n a args (snd (instrumentMiddlewares a st)) =
       invoke env n (PatchedUse (Fun orig)) (App a) args (snd (instrumentMiddlewares a st))"
  by (simp add: app_use_def instrumentMiddlewares_def)

lemma wrapElem_Inr:
  "wrapElem a = Inr b \<Longrightarrow> (case a of Fun f \<Rightarrow> (\<exists>w. wrap f = Inr w \<and> b = Fun w) | c \<Rightarrow> b = c)"
  by (cases a) (auto simp: wrapElem_def split: sum.splits)

lemma wrapArg_Inr:
  "wrapArg a = Inr b \<Longrightarrow>
     (case a of
        Fun f \<Rightarrow> (\<exists>w. wrap f = Inr w \<and> b = Fun w)
      | Arr xs \<Rightarrow>
          (\<exists>ys. b = Arr ys \<and> length ys = length xs \<and>
             (\<forall>j<length xs. case xs ! j of Fun f \<Rightarrow> (\<exists>w. wrap f = Inr w \<and> ys ! j = Fun w) | c \<Rightarrow> ys ! j = c))
      | c \<Rightarrow> b = c)"
proof (cases a)
  case (Arr xs)
  assume "wrapArg a = Inr b"
  with Arr obtain ys where ys: "array_map wrapElem xs = Inr ys" "b = Arr ys"
    by (auto simp: wrapArg_def split: sum.splits)
  from ys(1) have len: "length ys = length xs" and el: "\<forall>j<length xs. wrapElem (xs ! j) = Inr (ys ! j)"
    by (simp_all add: array_map_Inr_iff)
  from el wrapElem_Inr have
    "\<forall>j<length xs. case xs ! j of Fun f \<Rightarrow> (\<exists>w. wrap f = Inr w \<and> ys ! j = Fun w) | c \<Rightarrow> ys ! j = c"
    by blast
  with ys(2) len Arr show ?thesis by simp
next
  case (Fun f)
  assume "wrapArg a = Inr b"
  with Fun show ?thesis by (auto simp: wrapArg_def split: sum.splits)
qed (auto simp: wrapArg_def)

lemma fire_finish_listeners:
  "length ss < n \<Longrightarrow>
     fire env n r ev (map FinishListener ss) st =
       Some (Return Undefined,
             fold (\<lambda>s st. span_finish s (remove_listener r ev (FinishListener s) st)) ss st)"
proof (induction ss arbitrary: n st)
  case Nil
  then obtain n' where "n = Suc n'" by (cases n) auto
  then show ?case by simp
next
  case (Cons s ss)
  then obtain n'' where n: "n = Suc (Suc n'')" and l: "length ss < Suc n''"
    by (cases n; cases "n - 1") auto
  from Cons.IH [OF l] show ?case unfolding n by simp
qed

lemma fold_finish_listeners:
  "once_listeners (responses st r) = map (\<lambda>s. (ev, FinishListener s)) ss \<Longrightarrow>
     fold (\<lambda>s st. span_finish s (remove_listener r ev (FinishListener s) st)) ss st =
       st\<lparr>responses := (responses st)(r := (responses st r)\<lparr>once_listeners := []\<rparr>),
          trace := trace st @ map SpanFinish ss\<rparr>"
proof (induction ss arbitrary: st)
  case Nil
  then have "once_listeners (responses st r) = []" by simp
  then have "(responses st r)\<lparr>once_listeners := []\<rparr> = responses st r"
    by (cases "responses st r") simp
  then show ?case by simp
next
  case (Cons s ss)
  let ?st1 = "span_finish s (remove_listener r ev (FinishListener s) st)"
  from Cons.prems have l: "once_listeners (responses ?st1 r) = map (\<lambda>s. (ev, FinishListener s)) ss"
    by (simp add: span_finish_eq remove_listener_def)
  have "fold (\<lambda>s st. span_finish s (remove_listener r ev (FinishListener s) st)) (s # ss) st =
          fold (\<lambda>s st. span_finish s (remove_listener r ev (FinishListener s) st)) ss ?st1"
    by simp
  also have "\<dots> = ?st1\<lparr>responses := (responses ?st1)(r := (responses ?st1 r)\<lparr>once_listeners := []\<rparr>),
                         trace := trace ?st1 @ map SpanFinish ss\<rparr>"
    by (rule Cons.IH [OF l])
  also have "\<dots> = st\<lparr>responses := (responses st)(r := (responses st r)\<lparr>once_listeners := []\<rparr>),
                       trace := trace st @ map SpanFinish (s # ss)\<rparr>"
    by (rule state.equality) (simp_all add: span_finish_eq remove_listener_def fun_eq_iff)
  finally show ?case .
qed

lemma listeners_for_finish_listeners:
  "once_listeners (responses st r) = map (\<lambda>s. (ev, FinishListener s)) ss \<Longrightarrow>
     listeners_for r ev st = map FinishListener ss"
  by (simp add: listeners_for_def comp_def)

lemma emit_finish_listeners:
  assumes "once_listeners (responses st r) = map (\<lambda>s. (ev, FinishListener s)) ss" and "length ss < n"
  shows "emit env n r ev st =
           Some (Return Undefined,
                 st\<lparr>responses := (responses st)(r := (responses st r)\<lparr>once_listeners := []\<rparr>),
                    trace := trace st @ map SpanFinish ss\<rparr>)"
  using assms
  by (simp add: emit_def listeners_for_finish_listeners fire_finish_listeners fold_finish_listeners)

lemma emit_times_no_listeners:
  "once_listeners (responses st r) = [] \<Longrightarrow> 0 < n \<Longrightarrow>
     emit_times env n r ev k st = Some (Return Undefined, st)"
proof (induction k)
  case 0
  then show ?case by simp
next
  case (Suc k)
  from Suc.prems obtain n' where "n = Suc n'" by (cases n) auto
  with Suc show ?case by (simp add: emit_def listeners_for_def)
qed

section \<open>The wrappers\<close>

text \<open>
  C5. For a callable of arity 2 and a response carrying a transaction, the wrapped form
  starts a child span of that transaction with the callable's name as description and
  op \<open>middleware\<close>, registers a one-time listener for \<open>finish\<close> on the response, and
  then is the call of the original callable with the same \<^verbatim>\<open>this\<close> and the same
  argument list: same outcome, returned unchanged. The listener, when called, finishes
  that span.
\<close>

theorem wrap2_with_transaction:
  assumes "fn_length fn = 2" and "arg args 1 = Res r"
    and "sentry_transaction (responses st r) = Some t"
  shows "wrap fn = Inr (Wrap2 fn)
         \<and> invoke env (Suc n) (Wrap2 fn) this args st =
             invoke env n fn this args
               (st\<lparr>next_span := Suc (next_span st),
                   responses := (responses st)
                      (r := (responses st r)
                         \<lparr>once_listeners := once_listeners (responses st r)
                                             @ [(''finish'', FinishListener (next_span st))]\<rparr>),
                   trace := trace st @ [StartChild t (fn_name fn) ''middleware'' (next_span st),
                                        OnceRegistered r ''finish'' (FinishListener (next_span st))]\<rparr>)
         \<and> invoke env (Suc m) (FinishListener (next_span st)) this' args' st' =
             Some (Return Undefined, st'\<lparr>trace := trace st' @ [SpanFinish (next_span st)]\<rparr>)"
  using assms
  by (simp add: wrap_def get_transaction_def startChild_eq res_once_eq span_finish_eq)

theorem wrap2_with_transaction_witness:
  "fn_length (Host 0 ''mw'' 2) = 2 \<and> arg [Obj 1, Res 0] 1 = Res 0
   \<and> sentry_transaction (responses st_tx 0) = Some 7
   \<and> map_option fst (invoke env_answer 3 (Wrap2 (Host 0 ''mw'' 2)) (Obj 9) [Obj 1, Res 0] st_tx)
       = Some (Return (Num 42))
   \<and> map_option (trace \<circ> snd) (invoke env_answer 3 (Wrap2 (Host 0 ''mw'' 2)) (Obj 9) [Obj 1, Res 0] st_tx)
       = Some [StartChild 7 ''mw'' ''middleware'' 0, OnceRegistered 0 ''finish'' (FinishListener 0),
               Enter 0 (Obj 9) [Obj 1, Res 0]]"
proof -
  have h1: "fn_length (Host 0 ''mw'' 2) = 2" by simp
  have h2: "arg [Obj 1, Res 0] 1 = Res 0" by (simp add: arg_def)
  have h3: "sentry_transaction (responses st_tx 0) = Some 7" by (simp add: st_tx_def)
  from wrap2_with_transaction [OF h1 h2 h3, of env_answer 2 "Obj 9"]
  have "invoke env_answer 3 (Wrap2 (Host 0 ''mw'' 2)) (Obj 9) [Obj 1, Res 0] st_tx =
          Some (Return (Num 42),
                st_tx\<lparr>next_span := 1,
                   responses := (responses st_tx)
                      (0 := (responses st_tx 0)\<lparr>once_listeners := [(''finish'', FinishListener 0)]\<rparr>),
                   trace := [StartChild 7 ''mw'' ''middleware'' 0,
                             OnceRegistered 0 ''finish'' (FinishListener 0),
                             Enter 0 (Obj 9) [Obj 1, Res 0]]\<rparr>)"
    by (simp add: eval_nat_numeral st_tx_def env_answer_def log_def)
  with h1 h2 h3 show ?thesis by simp
qed

text \<open>
  C6. For a callable of arity 3 or 4 and a response carrying a transaction, the child
  span is started in the state in which the original callable is then called, so the
  span's start precedes the body (for a host function the trace reads: start of the span,
  then entry into the body); the substitute continuation first finishes the span and
  then calls the real continuation with its own \<^verbatim>\<open>this\<close> and all of its own arguments,
  so the finish precedes the continuation's body.
\<close>

theorem wrap34_span_before_body_and_continuation:
  assumes "wrap fn = Inr w" and "fn_length fn \<noteq> 2"
    and "get_transaction st (arg args (if fn_length fn = 4 then 2 else 1)) = Inr (Some t)"
    and "args' = (if fn_length fn = 3
                  then [arg args 0, arg args 1, Fun (SubstNext (Some (next_span st)) (arg args 2))]
                  else [arg args 0, arg args 1, arg args 2, Fun (SubstNext (Some (next_span st)) (arg args 3))])"
  shows "invoke env (Suc n) w this args st =
           discard (invoke env n fn this args'
             (st\<lparr>next_span := Suc (next_span st),
                 trace := trace st @ [StartChild t (fn_name fn) ''middleware'' (next_span st)]\<rparr>))
         \<and> (fn = Host h nm ar \<longrightarrow>
              invoke env (Suc (Suc n)) w this args st =
                discard (run env n (env h this args')
                  (st\<lparr>next_span := Suc (next_span st),
                      trace := trace st @ [StartChild t nm ''middleware'' (next_span st),
                                           Enter h this args']\<rparr>)))
         \<and> invoke env (Suc m) (SubstNext (Some s) (Fun nxt)) this' nargs st' =
             invoke env m nxt this' nargs (st'\<lparr>trace := trace st' @ [SpanFinish s]\<rparr>)
         \<and> invoke env (Suc (Suc m)) (SubstNext (Some s) (Fun (Host h' nm' ar'))) this' nargs st' =
             run env m (env h' this' nargs)
               (st'\<lparr>trace := trace st' @ [SpanFinish s, Enter h' this' nargs]\<rparr>)"
  using wrap_cases [OF assms(1)] assms(2,3,4)
  by (auto simp: startChild_eq span_finish_eq log_def)

theorem wrap34_span_before_body_and_continuation_witness:
  "wrap (Host 0 ''mw'' 3) = Inr (Wrap3 (Host 0 ''mw'' 3)) \<and> fn_length (Host 0 ''mw'' 3) \<noteq> 2
   \<and> get_transaction st_tx (arg [Obj 1, Res 0, Fun (Host 1 ''next'' 1)]
        (if fn_length (Host 0 ''mw'' 3) = 4 then 2 else 1)) = Inr (Some 7)
   \<and> map_option (trace \<circ> snd)
        (invoke env_once 6 (Wrap3 (Host 0 ''mw'' 3)) (Obj 9) [Obj 1, Res 0, Fun (Host 1 ''next'' 1)] st_tx)
       = Some [StartChild 7 ''mw'' ''middleware'' 0,
               Enter 0 (Obj 9) [Obj 1, Res 0, Fun (SubstNext (Some 0) (Fun (Host 1 ''next'' 1)))],
               SpanFinish 0,
               Enter 1 (Obj 5) [Num 1, Num 2]]"
proof -
  have h1: "wrap (Host 0 ''mw'' 3) = Inr (Wrap3 (Host 0 ''mw'' 3))" by (simp add: wrap_def)
  have h2: "fn_length (Host 0 ''mw'' 3) \<noteq> 2" by simp
  have h3: "get_transaction st_tx (arg [Obj 1, Res 0, Fun (Host 1 ''next'' 1)]
        (if fn_length (Host 0 ''mw'' 3) = 4 then 2 else 1)) = Inr (Some 7)"
    by (simp add: get_transaction_def arg_def st_tx_def)
  from wrap34_span_before_body_and_continuation [OF h1 h2 h3 refl, of env_once 5 "Obj 9"]
  have "map_option (trace \<circ> snd)
        (invoke env_once 6 (Wrap3 (Host 0 ''mw'' 3)) (Obj 9) [Obj 1, Res 0, Fun (Host 1 ''next'' 1)] st_tx)
       = Some [StartChild 7 ''mw'' ''middleware'' 0,
               Enter 0 (Obj 9) [Obj 1, Res 0, Fun (SubstNext (Some 0) (Fun (Host 1 ''next'' 1)))],
               SpanFinish 0,
               Enter 1 (Obj 5) [Num 1, Num 2]]"
    by (simp add: eval_nat_numeral st_tx_def env_once_def log_def arg_def discard_def span_finish_eq)
  with h1 h2 h3 show ?thesis by simp
qed

text \<open>
  C1 (as amended). When the response carries no transaction, the wrapped form of an
  arity-2 callable is exactly the call of the original with the same \<^verbatim>\<open>this\<close> and
  arguments, in the same state: same outcome, same effects. The wrapped form of an
  arity-3 (arity-4) callable calls the original in the unchanged state with the same
  \<^verbatim>\<open>this\<close>, the first two (three) parameters and a substitute continuation, keeps a
  throw, and returns \<^verbatim>\<open>undefined\<close> whatever the original returns; the substitute
  continuation, having no span, is exactly the call of the real continuation. In no case
  does the wrapper start a span or register a listener.
\<close>

theorem wrap_without_transaction_delegates:
  assumes "wrap fn = Inr w"
    and "get_transaction st (arg args (if fn_length fn = 4 then 2 else 1)) = Inr None"
  shows "invoke env (Suc n) w this args st =
           (if fn_length fn = 2 then invoke env n fn this args st
            else if fn_length fn = 3 then
              discard (invoke env n fn this [arg args 0, arg args 1, Fun (SubstNext None (arg args 2))] st)
            else
              discard (invoke env n fn this
                         [arg args 0, arg args 1, arg args 2, Fun (SubstNext None (arg args 3))] st))
         \<and> invoke env (Suc m) (SubstNext None (Fun nxt)) this' args' st' = invoke env m nxt this' args' st'"
  using wrap_cases [OF assms(1)] assms(2) by auto

theorem wrap_without_transaction_delegates_witness:
  "wrap (Host 0 ''mw'' 2) = Inr (Wrap2 (Host 0 ''mw'' 2))
   \<and> get_transaction st0 (arg [Obj 1, Res 0] (if fn_length (Host 0 ''mw'' 2) = 4 then 2 else 1)) = Inr None
   \<and> invoke env_answer 3 (Wrap2 (Host 0 ''mw'' 2)) (Obj 9) [Obj 1, Res 0] st0
       = invoke env_answer 2 (Host 0 ''mw'' 2) (Obj 9) [Obj 1, Res 0] st0
   \<and> map_option fst (invoke env_answer 3 (Wrap2 (Host 0 ''mw'' 2)) (Obj 9) [Obj 1, Res 0] st0)
       = Some (Return (Num 42))
   \<and> map_option (trace \<circ> snd) (invoke env_answer 3 (Wrap2 (Host 0 ''mw'' 2)) (Obj 9) [Obj 1, Res 0] st0)
       = Some [Enter 0 (Obj 9) [Obj 1, Res 0]]"
proof -
  have h1: "wrap (Host 0 ''mw'' 2) = Inr (Wrap2 (Host 0 ''mw'' 2))" by (simp add: wrap_def)
  have h2: "get_transaction st0 (arg [Obj 1, Res 0] (if fn_length (Host 0 ''mw'' 2) = 4 then 2 else 1)) = Inr None"
    by (simp add: get_transaction_def arg_def st0_def)
  from wrap_without_transaction_delegates [OF h1 h2, of env_answer 2 "Obj 9"]
  have e: "invoke env_answer 3 (Wrap2 (Host 0 ''mw'' 2)) (Obj 9) [Obj 1, Res 0] st0
       = invoke env_answer 2 (Host 0 ''mw'' 2) (Obj 9) [Obj 1, Res 0] st0"
    by (simp add: eval_nat_numeral)
  have "invoke env_answer 2 (Host 0 ''mw'' 2) (Obj 9) [Obj 1, Res 0] st0
          = Some (Return (Num 42), st0\<lparr>trace := [Enter 0 (Obj 9) [Obj 1, Res 0]]\<rparr>)"
    by (simp add: eval_nat_numeral env_answer_def log_def st0_def)
  with h1 h2 e show ?thesis by simp
qed

theorem wrap3_result_differs_counterexample:
  "wrap (Host 0 ''mw'' 3) = Inr (Wrap3 (Host 0 ''mw'' 3))
   \<and> get_transaction st0 (Res 0) = Inr None
   \<and> map_option fst (invoke env_answer 3 (Host 0 ''mw'' 3) Undefined
                        [Obj 1, Res 0, Fun (Host 1 ''next'' 0)] st0) = Some (Return (Num 42))
   \<and> map_option fst (invoke env_answer 3 (Wrap3 (Host 0 ''mw'' 3)) Undefined
                        [Obj 1, Res 0, Fun (Host 1 ''next'' 0)] st0) = Some (Return Undefined)
   \<and> map_option fst (invoke env_extra 4 (Host 0 ''mw'' 3) Undefined
                        [Obj 1, Res 0, Fun (Host 1 ''next'' 0), Fun (Host 2 ''cb'' 0)] st0)
       = Some (Return Undefined)
   \<and> map_option fst (invoke env_extra 4 (Wrap3 (Host 0 ''mw'' 3)) Undefined
                        [Obj 1, Res 0, Fun (Host 1 ''next'' 0), Fun (Host 2 ''cb'' 0)] st0)
       = Some (Throw (Exn TypeError))"
  by (simp add: eval_nat_numeral wrap_def get_transaction_def arg_def st0_def env_answer_def
        env_extra_def discard_def log_def)

text \<open>
  C3 (as amended). With a response in the response position, every wrapped form calls
  the original callable with the \<^verbatim>\<open>this\<close> of the wrapper's own call. For arity 2 the
  argument list is the wrapper's, unchanged in order and count. For arity 3 (arity 4) the
  original receives exactly three (four) arguments: the first two (three) parameters of
  the wrapper's call, \<^verbatim>\<open>undefined\<close> where absent, and a substitute continuation in
  place of the third (fourth); arguments beyond the declared arity are dropped. The
  substitute continuation forwards its own \<^verbatim>\<open>this\<close> and all of its arguments to the
  real continuation.
\<close>

theorem wrap_forwards_this_and_arguments:
  assumes "wrap fn = Inr w"
    and "get_transaction st (arg args (if fn_length fn = 4 then 2 else 1)) = Inr topt"
  shows "\<exists>sp st1.
           invoke env (Suc n) w this args st =
             (if fn_length fn = 2 then invoke env n fn this args st1
              else if fn_length fn = 3 then
                discard (invoke env n fn this [arg args 0, arg args 1, Fun (SubstNext sp (arg args 2))] st1)
              else
                discard (invoke env n fn this
                           [arg args 0, arg args 1, arg args 2, Fun (SubstNext sp (arg args 3))] st1))
           \<and> (\<forall>m nxt this' args' st'. \<exists>st2.
                 invoke env (Suc m) (SubstNext sp (Fun nxt)) this' args' st' = invoke env m nxt this' args' st2)"
proof -
  have fwd_none: "\<forall>m nxt this' args' st'. \<exists>st2.
      invoke env (Suc m) (SubstNext None (Fun nxt)) this' args' st' = invoke env m nxt this' args' st2"
    by auto
  have fwd_some: "\<forall>m nxt this' args' st'. \<exists>st2.
      invoke env (Suc m) (SubstNext (Some s) (Fun nxt)) this' args' st' = invoke env m nxt this' args' st2" for s
    by auto
  show ?thesis
  proof (cases topt)
    case None
    with wrap_cases [OF assms(1)] assms(2) fwd_none show ?thesis
      by (intro exI [of _ None] exI [of _ st]) auto
  next
    case (Some t)
    from wrap_cases [OF assms(1)] consider
      (two) "fn_length fn = 2" "w = Wrap2 fn" | (three) "fn_length fn = 3" "w = Wrap3 fn"
      | (four) "fn_length fn = 4" "w = Wrap4 fn"
      by auto
    then show ?thesis
    proof cases
      case two
      from assms(2) Some two obtain r where r: "arg args 1 = Res r"
        by (auto simp: get_transaction_def split: val.splits)
      let ?st1 = "res_once r ''finish'' (FinishListener (next_span st))
                    (snd (startChild t (fn_name fn) ''middleware'' st))"
      from assms(2) Some two r fwd_none show ?thesis
        by (intro exI [of _ None] exI [of _ ?st1]) (auto simp: startChild_eq)
    next
      case three
      let ?st1 = "snd (startChild t (fn_name fn) ''middleware'' st)"
      from assms(2) Some three fwd_some [of "next_span st"] show ?thesis
        by (intro exI [of _ "Some (next_span st)"] exI [of _ ?st1]) (auto simp: startChild_eq)
    next
      case four
      let ?st1 = "snd (startChild t (fn_name fn) ''middleware'' st)"
      from assms(2) Some four fwd_some [of "next_span st"] show ?thesis
        by (intro exI [of _ "Some (next_span st)"] exI [of _ ?st1]) (auto simp: startChild_eq)
    qed
  qed
qed

theorem wrap_forwards_this_and_arguments_witness:
  "wrap (Host 2 ''onError'' 4) = Inr (Wrap4 (Host 2 ''onError'' 4))
   \<and> get_transaction st0 (arg [Str ''boom'', Obj 1, Res 0, Fun (Host 1 ''next'' 1), Num 7]
        (if fn_length (Host 2 ''onError'' 4) = 4 then 2 else 1)) = Inr None
   \<and> (\<exists>sp st1.
        invoke env_once 6 (Wrap4 (Host 2 ''onError'' 4)) (Obj 9)
            [Str ''boom'', Obj 1, Res 0, Fun (Host 1 ''next'' 1), Num 7] st0 =
          discard (invoke env_once 5 (Host 2 ''onError'' 4) (Obj 9)
            [Str ''boom'', Obj 1, Res 0, Fun (SubstNext sp (Fun (Host 1 ''next'' 1)))] st1))
   \<and> map_option (trace \<circ> snd)
        (invoke env_once 6 (Wrap4 (Host 2 ''onError'' 4)) (Obj 9)
            [Str ''boom'', Obj 1, Res 0, Fun (Host 1 ''next'' 1), Num 7] st0)
       = Some [Enter 2 (Obj 9) [Str ''boom'', Obj 1, Res 0, Fun (SubstNext None (Fun (Host 1 ''next'' 1)))],
               Enter 1 (Obj 5) [Num 1, Num 2]]"
proof -
  have h1: "wrap (Host 2 ''onError'' 4) = Inr (Wrap4 (Host 2 ''onError'' 4))" by (simp add: wrap_def)
  have h2: "get_transaction st0 (arg [Str ''boom'', Obj 1, Res 0, Fun (Host 1 ''next'' 1), Num 7]
        (if fn_length (Host 2 ''onError'' 4) = 4 then 2 else 1)) = Inr None"
    by (simp add: get_transaction_def arg_def st0_def)
  from wrap_forwards_this_and_arguments [OF h1 h2, of env_once 5 "Obj 9"]
  have e: "\<exists>sp st1.
        invoke env_once 6 (Wrap4 (Host 2 ''onError'' 4)) (Obj 9)
            [Str ''boom'', Obj 1, Res 0, Fun (Host 1 ''next'' 1), Num 7] st0 =
          discard (invoke env_once 5 (Host 2 ''onError'' 4) (Obj 9)
            [Str ''boom'', Obj 1, Res 0, Fun (SubstNext sp (Fun (Host 1 ''next'' 1)))] st1)"
    by (simp add: eval_nat_numeral arg_def) blast
  have t: "map_option (trace \<circ> snd)
        (invoke env_once 6 (Wrap4 (Host 2 ''onError'' 4)) (Obj 9)
            [Str ''boom'', Obj 1, Res 0, Fun (Host 1 ''next'' 1), Num 7] st0)
       = Some [Enter 2 (Obj 9) [Str ''boom'', Obj 1, Res 0, Fun (SubstNext None (Fun (Host 1 ''next'' 1)))],
               Enter 1 (Obj 5) [Num 1, Num 2]]"
    by (simp add: eval_nat_numeral st0_def env_once_def log_def arg_def discard_def get_transaction_def)
  from h1 h2 e t show ?thesis by simp
qed

theorem wrap3_drops_extra_arguments_counterexample:
  "wrap (Host 0 ''mw'' 3) = Inr (Wrap3 (Host 0 ''mw'' 3))
   \<and> map_option (trace \<circ> snd)
        (invoke env_answer 3 (Wrap3 (Host 0 ''mw'' 3)) (Obj 9)
           [Obj 1, Res 0, Fun (Host 1 ''next'' 1), Num 7] st0)
       = Some [Enter 0 (Obj 9) [Obj 1, Res 0, Fun (SubstNext None (Fun (Host 1 ''next'' 1)))]]
   \<and> [Obj 1, Res 0, Fun (SubstNext None (Fun (Host 1 ''next'' 1)))]
       \<noteq> [Obj 1, Res 0, Fun (Host 1 ''next'' 1), Num 7]"
  by (simp add: eval_nat_numeral wrap_def get_transaction_def arg_def st0_def env_answer_def
        discard_def log_def)

text \<open>
  C2 (as amended). A span opened by a wrapper is finished once per completion signal,
  not exactly once. For arity 3 and 4 every invocation of the substitute continuation
  finishes the span once more before it calls the real continuation: never invoked,
  the span is never finished; invoked twice, it is finished twice. For arity 2 the
  listener is one-time: on a response whose listeners are the \<open>finish\<close> listeners
  registered by wrappers, firing \<open>finish\<close> one or more times finishes each of these
  spans exactly once and leaves no listener behind.
\<close>

theorem span_finish_per_completion:
  "invoke env (Suc m) (SubstNext (Some s) (Fun nxt)) this args st =
     invoke env m nxt this args (st\<lparr>trace := trace st @ [SpanFinish s]\<rparr>)
   \<and> (once_listeners (responses st r) = map (\<lambda>s. (''finish'', FinishListener s)) ss \<and> length ss < n \<longrightarrow>
        emit_times env n r ''finish'' (Suc k) st =
          Some (Return Undefined,
                st\<lparr>responses := (responses st)(r := (responses st r)\<lparr>once_listeners := []\<rparr>),
                   trace := trace st @ map SpanFinish ss\<rparr>))"
proof -
  have "emit_times env n r ''finish'' (Suc k) st =
          Some (Return Undefined,
                st\<lparr>responses := (responses st)(r := (responses st r)\<lparr>once_listeners := []\<rparr>),
                   trace := trace st @ map SpanFinish ss\<rparr>)"
    if a: "once_listeners (responses st r) = map (\<lambda>s. (''finish'', FinishListener s)) ss"
      and b: "length ss < n"
  proof -
    let ?st1 = "st\<lparr>responses := (responses st)(r := (responses st r)\<lparr>once_listeners := []\<rparr>),
                   trace := trace st @ map SpanFinish ss\<rparr>"
    have "once_listeners (responses ?st1 r) = []" by simp
    moreover from b have "0 < n" by simp
    ultimately have "emit_times env n r ''finish'' k ?st1 = Some (Return Undefined, ?st1)"
      by (rule emit_times_no_listeners)
    with emit_finish_listeners [OF a b, of env] show ?thesis by simp
  qed
  then show ?thesis by (simp add: span_finish_eq)
qed

theorem span_finish_per_completion_witness:
  "once_listeners (responses (st0\<lparr>responses := (\<lambda>_. \<lparr>sentry_transaction = Some 7,
                                       once_listeners = [(''finish'', FinishListener 0)]\<rparr>)\<rparr>) 0)
     = map (\<lambda>s. (''finish'', FinishListener s)) [0]
   \<and> length [0::nat] < 2
   \<and> map_option (trace \<circ> snd)
       (emit_times env_answer 2 0 ''finish'' 3
          (st0\<lparr>responses := (\<lambda>_. \<lparr>sentry_transaction = Some 7,
                                       once_listeners = [(''finish'', FinishListener 0)]\<rparr>)\<rparr>))
       = Some [SpanFinish 0]"
proof -
  let ?st = "st0\<lparr>responses := (\<lambda>_. \<lparr>sentry_transaction = Some 7,
                                       once_listeners = [(''finish'', FinishListener 0)]\<rparr>)\<rparr>"
  have h: "once_listeners (responses ?st 0) = map (\<lambda>s. (''finish'', FinishListener s)) [0] \<and> length [0::nat] < 2"
    by simp
  from span_finish_per_completion [of env_answer 0 0 "Host 0 ''n'' 0" Undefined "[]" ?st 0 "[0]" 2 2] h
  have "map_option (trace \<circ> snd) (emit_times env_answer 2 0 ''finish'' 3 ?st) = Some [SpanFinish 0]"
    by (simp add: eval_nat_numeral st0_def)
  with h show ?thesis by simp
qed

theorem wrap3_double_finish_counterexample:
  "wrap (Host 0 ''mw'' 3) = Inr (Wrap3 (Host 0 ''mw'' 3))
   \<and> map_option (trace \<circ> snd)
        (invoke env_twice 8 (Wrap3 (Host 0 ''mw'' 3)) Undefined [Obj 1, Res 0, Fun (Host 1 ''next'' 1)] st_tx)
       = Some [StartChild 7 ''mw'' ''middleware'' 0,
               Enter 0 Undefined [Obj 1, Res 0, Fun (SubstNext (Some 0) (Fun (Host 1 ''next'' 1)))],
               SpanFinish 0, Enter 1 Undefined [],
               SpanFinish 0, Enter 1 Undefined []]
   \<and> map_option (trace \<circ> snd)
        (invoke env_answer 8 (Wrap3 (Host 0 ''mw'' 3)) Undefined [Obj 1, Res 0, Fun (Host 1 ''next'' 1)] st_tx)
       = Some [StartChild 7 ''mw'' ''middleware'' 0,
               Enter 0 Undefined [Obj 1, Res 0, Fun (SubstNext (Some 0) (Fun (Host 1 ''next'' 1)))]]"
  by (simp add: eval_nat_numeral wrap_def get_transaction_def arg_def st_tx_def env_answer_def
        env_twice_def discard_def log_def startChild_def span_finish_def)

section \<open>wrap: unsupported arities\<close>

text \<open>
  C4. A callable whose \<^verbatim>\<open>length\<close> is not 2, 3 or 4 makes \<open>wrap\<close> throw the
  unsupported-arity error instead of returning a replacement, and a call of the patched
  \<^verbatim>\<open>use\<close> that has such a callable among its arguments throws without changing
  anything.
\<close>

theorem wrap_unsupported_arity_throws:
  assumes "fn_length fn \<notin> {2, 3, 4}"
  shows "wrap fn = Inl (Error (''Express middleware takes 2-4 arguments. Got: '' @ show_nat (fn_length fn)))
         \<and> (\<forall>w. wrap fn \<noteq> Inr w)
         \<and> (Fun fn \<in> set args \<or> (\<exists>xs. Arr xs \<in> set args \<and> Fun fn \<in> set xs) \<longrightarrow>
              (\<exists>e. invoke env (Suc n) (PatchedUse (Fun orig)) this args st = Some (Throw (Exn e), st)))"
proof -
  have a: "wrap fn = Inl (Error (''Express middleware takes 2-4 arguments. Got: '' @ show_nat (fn_length fn)))"
    using assms by (auto simp: wrap_def Let_def)
  have b: "\<exists>e. invoke env (Suc n) (PatchedUse (Fun orig)) this args st = Some (Throw (Exn e), st)"
    if "Fun fn \<in> set args \<or> (\<exists>xs. Arr xs \<in> set args \<and> Fun fn \<in> set xs)"
  proof -
    from that assms have "\<exists>e. wrapUseArgs args = Inl e"
      unfolding wrapUseArgs_Inl_iff by blast
    then show ?thesis using invoke_PatchedUse_Inl by blast
  qed
  from a b show ?thesis by simp
qed

theorem wrap_unsupported_arity_throws_witness:
  "fn_length (Host 3 ''one'' 1) \<notin> {2, 3, 4}
   \<and> wrap (Host 3 ''one'' 1) = Inl (Error ''Express middleware takes 2-4 arguments. Got: 1'')
   \<and> wrap (Host 4 ''twelve'' 12) = Inl (Error ''Express middleware takes 2-4 arguments. Got: 12'')
   \<and> invoke env_answer 2 (PatchedUse (Fun (Host 9 ''use'' 1))) (App 0)
        [Str ''/p'', Fun (Host 3 ''one'' 1)] st0
       = Some (Throw (Exn (Error ''Express middleware takes 2-4 arguments. Got: 1'')), st0)"
proof -
  have h: "fn_length (Host 3 ''one'' 1) \<notin> {2, 3, 4}" by simp
  have h': "fn_length (Host 4 ''twelve'' 12) \<notin> {2, 3, 4}" by simp
  from wrap_unsupported_arity_throws [OF h, of "[Str ''/p'', Fun (Host 3 ''one'' 1)]" env_answer 1
      "Host 9 ''use'' 1" "App 0" st0]
  have a: "wrap (Host 3 ''one'' 1) = Inl (Error ''Express middleware takes 2-4 arguments. Got: 1'')"
    by (simp add: show_nat.simps)
  from wrap_unsupported_arity_throws [OF h', of "[]" env_answer 1 "Host 9 ''use'' 1" "App 0" st0]
  have b: "wrap (Host 4 ''twelve'' 12) = Inl (Error ''Express middleware takes 2-4 arguments. Got: 12'')"
    by (simp add: show_nat.simps)
  have c: "invoke env_answer 2 (PatchedUse (Fun (Host 9 ''use'' 1))) (App 0)
        [Str ''/p'', Fun (Host 3 ''one'' 1)] st0
       = Some (Throw (Exn (Error ''Express middleware takes 2-4 arguments. Got: 1'')), st0)"
    by (simp add: eval_nat_numeral wrapUseArgs_def wrapArg_def wrap_def show_nat.simps)
  from h a b c show ?thesis by simp
qed

section \<open>The registration interceptor\<close>

text \<open>
  C9. When a callable among the arguments of the patched \<^verbatim>\<open>use\<close>, at top level or
  inside an array argument, has a \<^verbatim>\<open>length\<close> outside 2..4, the call throws the
  unsupported-arity error and the state is the one before the call: the original
  \<^verbatim>\<open>use\<close> is never entered, so nothing of that call is registered.
\<close>

theorem patched_use_throws_before_registration:
  assumes "Fun f \<in> set args \<or> (\<exists>xs. Arr xs \<in> set args \<and> Fun f \<in> set xs)"
    and "fn_length f \<notin> {2, 3, 4}"
    and "use (apps st a) = Fun orig"
  shows "\<exists>k. k \<notin> {2, 3, 4}
           \<and> invoke env (Suc n) (PatchedUse (Fun orig)) this args st' =
               Some (Throw (Exn (Error (''Express middleware takes 2-4 arguments. Got: '' @ show_nat k))), st')
           \<and> app_use env (Suc n) a args (snd (instrumentMiddlewares a st)) =
               Some (Throw (Exn (Error (''Express middleware takes 2-4 arguments. Got: '' @ show_nat k))),
                     snd (instrumentMiddlewares a st))"
proof -
  from assms(1,2) obtain e where e: "wrapUseArgs args = Inl e"
    using wrapUseArgs_Inl_iff [of args] by blast
  from wrapUseArgs_Inl_msg [OF e] obtain k where
    k: "k \<notin> {2, 3, 4}" "e = Error (''Express middleware takes 2-4 arguments. Got: '' @ show_nat k)"
    by blast
  from e k assms(3) show ?thesis
    by (intro exI [of _ k]) (simp add: app_use_instrumented)
qed

theorem patched_use_throws_before_registration_witness:
  "(Fun (Host 3 ''one'' 1) \<in> set [Fun (Host 0 ''ok'' 3), Arr [Fun (Host 3 ''one'' 1)]]
     \<or> (\<exists>xs. Arr xs \<in> set [Fun (Host 0 ''ok'' 3), Arr [Fun (Host 3 ''one'' 1)]] \<and> Fun (Host 3 ''one'' 1) \<in> set xs))
   \<and> fn_length (Host 3 ''one'' 1) \<notin> {2, 3, 4}
   \<and> use (apps st_app 0) = Fun (Host 9 ''use'' 1)
   \<and> app_use env_answer 3 0 [Fun (Host 0 ''ok'' 3), Arr [Fun (Host 3 ''one'' 1)]] (snd (instrumentMiddlewares 0 st_app))
       = Some (Throw (Exn (Error ''Express middleware takes 2-4 arguments. Got: 1'')),
               snd (instrumentMiddlewares 0 st_app))
   \<and> trace (snd (instrumentMiddlewares 0 st_app)) = []"
proof -
  let ?args = "[Fun (Host 0 ''ok'' 3), Arr [Fun (Host 3 ''one'' 1)]]"
  have h1: "Fun (Host 3 ''one'' 1) \<in> set ?args
     \<or> (\<exists>xs. Arr xs \<in> set ?args \<and> Fun (Host 3 ''one'' 1) \<in> set xs)" by simp
  have h2: "fn_length (Host 3 ''one'' 1) \<notin> {2, 3, 4}" by simp
  have h3: "use (apps st_app 0) = Fun (Host 9 ''use'' 1)" by (simp add: st_app_def)
  from patched_use_throws_before_registration [OF h1 h2 h3, of env_answer 2 "App 0" st_app]
  obtain k where k: "app_use env_answer 3 0 ?args (snd (instrumentMiddlewares 0 st_app)) =
      Some (Throw (Exn (Error (''Express middleware takes 2-4 arguments. Got: '' @ show_nat k))),
            snd (instrumentMiddlewares 0 st_app))"
    by (auto simp: eval_nat_numeral)
  have "app_use env_answer 3 0 ?args (snd (instrumentMiddlewares 0 st_app)) =
      Some (Throw (Exn (Error ''Express middleware takes 2-4 arguments. Got: 1'')),
            snd (instrumentMiddlewares 0 st_app))"
    by (simp add: eval_nat_numeral app_use_def instrumentMiddlewares_def st_app_def wrapUseArgs_def
          wrapArg_def wrapElem_def wrap_def show_nat.simps)
  moreover have "trace (snd (instrumentMiddlewares 0 st_app)) = []"
    by (simp add: instrumentMiddlewares_def st_app_def st0_def)
  ultimately show ?thesis using h1 h2 h3 k by simp
qed

text \<open>
  C7. For every argument list, \<open>wrapUseArgs\<close> either meets a callable of unsupported
  arity at top level or inside an array argument (and throws, see C9), or returns a list
  of the same length in which a top-level callable is replaced by its wrapped form, an
  array by an array of the same length whose callable elements are wrapped and whose other
  elements are unchanged, and any other argument is unchanged; the patched \<^verbatim>\<open>use\<close>
  then calls the original \<^verbatim>\<open>use\<close> with the same \<^verbatim>\<open>this\<close> and that list.
\<close>

theorem wrapUseArgs_transforms_and_forwards:
  "case wrapUseArgs args of
     Inl e \<Rightarrow>
       (\<exists>f. (Fun f \<in> set args \<or> (\<exists>xs. Arr xs \<in> set args \<and> Fun f \<in> set xs)) \<and> fn_length f \<notin> {2, 3, 4})
   | Inr args' \<Rightarrow>
       length args' = length args
       \<and> (\<forall>i<length args.
            case args ! i of
              Fun f \<Rightarrow> (\<exists>w. wrap f = Inr w \<and> args' ! i = Fun w)
            | Arr xs \<Rightarrow>
                (\<exists>ys. args' ! i = Arr ys \<and> length ys = length xs \<and>
                   (\<forall>j<length xs.
                      case xs ! j of Fun f \<Rightarrow> (\<exists>w. wrap f = Inr w \<and> ys ! j = Fun w) | c \<Rightarrow> ys ! j = c))
            | c \<Rightarrow> args' ! i = c)
       \<and> invoke env (Suc n) (PatchedUse (Fun orig)) this args st = invoke env n orig this args' st
       \<and> (use (apps st a) = Fun orig \<longrightarrow>
            app_use env (Suc n) a args (snd (instrumentMiddlewares a st)) =
              invoke env n orig (App a) args' (snd (instrumentMiddlewares a st)))"
proof (cases "wrapUseArgs args")
  case (Inl e)
  then have "\<exists>e. wrapUseArgs args = Inl e" by blast
  with Inl show ?thesis unfolding wrapUseArgs_Inl_iff by simp
next
  case (Inr args')
  then have len: "length args' = length args"
    and el: "\<forall>i<length args. wrapArg (args ! i) = Inr (args' ! i)"
    by (simp_all add: wrapUseArgs_def array_map_Inr_iff)
  from el wrapArg_Inr have rel: "\<forall>i<length args.
            case args ! i of
              Fun f \<Rightarrow> (\<exists>w. wrap f = Inr w \<and> args' ! i = Fun w)
            | Arr xs \<Rightarrow>
                (\<exists>ys. args' ! i = Arr ys \<and> length ys = length xs \<and>
                   (\<forall>j<length xs.
                      case xs ! j of Fun f \<Rightarrow> (\<exists>w. wrap f = Inr w \<and> ys ! j = Fun w) | c \<Rightarrow> ys ! j = c))
            | c \<Rightarrow> args' ! i = c"
    by blast
  from Inr len rel show ?thesis by (simp add: app_use_instrumented)
qed

theorem wrapUseArgs_transforms_and_forwards_witness:
  "wrapUseArgs [Str ''/path'', Fun (Host 0 ''fnA'' 2), Arr [Fun (Host 1 ''fnB'' 3), Str ''marker'', Fun (Host 2 ''fnC'' 4)]]
     = Inr [Str ''/path'', Fun (Wrap2 (Host 0 ''fnA'' 2)),
            Arr [Fun (Wrap3 (Host 1 ''fnB'' 3)), Str ''marker'', Fun (Wrap4 (Host 2 ''fnC'' 4))]]
   \<and> map_option (trace \<circ> snd)
       (app_use env_answer 3 0
          [Str ''/path'', Fun (Host 0 ''fnA'' 2), Arr [Fun (Host 1 ''fnB'' 3), Str ''marker'', Fun (Host 2 ''fnC'' 4)]]
          (snd (instrumentMiddlewares 0 st_app)))
     = Some [Enter 9 (App 0) [Str ''/path'', Fun (Wrap2 (Host 0 ''fnA'' 2)),
            Arr [Fun (Wrap3 (Host 1 ''fnB'' 3)), Str ''marker'', Fun (Wrap4 (Host 2 ''fnC'' 4))]]]"
proof -
  let ?args = "[Str ''/path'', Fun (Host 0 ''fnA'' 2), Arr [Fun (Host 1 ''fnB'' 3), Str ''marker'', Fun (Host 2 ''fnC'' 4)]]"
  let ?args' = "[Str ''/path'', Fun (Wrap2 (Host 0 ''fnA'' 2)),
            Arr [Fun (Wrap3 (Host 1 ''fnB'' 3)), Str ''marker'', Fun (Wrap4 (Host 2 ''fnC'' 4))]]"
  have v: "wrapUseArgs ?args = Inr ?args'"
    by (simp add: wrapUseArgs_def wrapArg_def wrapElem_def wrap_def)
  have u: "use (apps st_app 0) = Fun (Host 9 ''use'' 1)" by (simp add: st_app_def)
  from wrapUseArgs_transforms_and_forwards [of ?args env_answer 2 "Host 9 ''use'' 1" "App 0" st_app 0]
  have "app_use env_answer 3 0 ?args (snd (instrumentMiddlewares 0 st_app)) =
          invoke env_answer 2 (Host 9 ''use'' 1) (App 0) ?args' (snd (instrumentMiddlewares 0 st_app))"
    unfolding v using u by (simp add: eval_nat_numeral)
  then have "map_option (trace \<circ> snd) (app_use env_answer 3 0 ?args (snd (instrumentMiddlewares 0 st_app)))
     = Some [Enter 9 (App 0) ?args']"
    by (simp add: eval_nat_numeral env_answer_def log_def instrumentMiddlewares_def st_app_def st0_def)
  with v show ?thesis by simp
qed

text \<open>
  C10. An array that is an element of an array argument is returned by the inner callback
  as it is, whatever it contains, so callables at depth two or more are neither wrapped nor
  checked: unless a callable at depth 0 or 1 makes the call throw, the nested array
  reaches the original \<^verbatim>\<open>use\<close> unchanged, at the same position.
\<close>

theorem wrapUseArgs_leaves_nested_arrays:
  assumes "i < length args" and "args ! i = Arr xs"
    and "j < length xs" and "xs ! j = Arr ys"
  shows "wrapElem (Arr ys) = Inr (Arr ys)
         \<and> (case wrapUseArgs args of
               Inl e \<Rightarrow>
                 (\<exists>f. (Fun f \<in> set args \<or> (\<exists>zs. Arr zs \<in> set args \<and> Fun f \<in> set zs))
                      \<and> fn_length f \<notin> {2, 3, 4})
             | Inr args' \<Rightarrow>
                 (\<exists>xs'. args' ! i = Arr xs' \<and> length xs' = length xs \<and> xs' ! j = Arr ys)
                 \<and> invoke env (Suc n) (PatchedUse (Fun orig)) this args st = invoke env n orig this args' st)"
proof (cases "wrapUseArgs args")
  case (Inl e)
  then have "\<exists>e. wrapUseArgs args = Inl e" by blast
  with Inl show ?thesis unfolding wrapUseArgs_Inl_iff by (simp add: wrapElem_def)
next
  case (Inr args')
  with assms(1) have "wrapArg (args ! i) = Inr (args' ! i)"
    by (simp add: wrapUseArgs_def array_map_Inr_iff)
  from wrapArg_Inr [OF this] assms(2) obtain xs' where
    xs': "args' ! i = Arr xs'" "length xs' = length xs"
      "\<forall>j<length xs. case xs ! j of Fun f \<Rightarrow> (\<exists>w. wrap f = Inr w \<and> xs' ! j = Fun w) | c \<Rightarrow> xs' ! j = c"
    by auto
  from xs'(3) assms(3,4) have "xs' ! j = Arr ys" by auto
  with xs'(1,2) Inr show ?thesis by (simp add: wrapElem_def)
qed

theorem wrapUseArgs_leaves_nested_arrays_witness:
  "wrapUseArgs [Str ''/p'', Arr [Fun (Host 1 ''ok'' 3), Arr [Fun (Host 5 ''deep'' 7), Fun (Host 6 ''deep3'' 3)]]]
     = Inr [Str ''/p'', Arr [Fun (Wrap3 (Host 1 ''ok'' 3)), Arr [Fun (Host 5 ''deep'' 7), Fun (Host 6 ''deep3'' 3)]]]
   \<and> (\<exists>xs'. [Str ''/p'', Arr [Fun (Wrap3 (Host 1 ''ok'' 3)), Arr [Fun (Host 5 ''deep'' 7), Fun (Host 6 ''deep3'' 3)]]] ! 1 = Arr xs'
        \<and> xs' ! 1 = Arr [Fun (Host 5 ''deep'' 7), Fun (Host 6 ''deep3'' 3)])
   \<and> map_option (trace \<circ> snd)
        (invoke env_answer 3 (PatchedUse (Fun (Host 9 ''use'' 1))) (App 0)
           [Str ''/p'', Arr [Fun (Host 1 ''ok'' 3), Arr [Fun (Host 5 ''deep'' 7), Fun (Host 6 ''deep3'' 3)]]] st0)
       = Some [Enter 9 (App 0)
                [Str ''/p'', Arr [Fun (Wrap3 (Host 1 ''ok'' 3)), Arr [Fun (Host 5 ''deep'' 7), Fun (Host 6 ''deep3'' 3)]]]]"
proof -
  let ?ys = "[Fun (Host 5 ''deep'' 7), Fun (Host 6 ''deep3'' 3)]"
  let ?xs = "[Fun (Host 1 ''ok'' 3), Arr ?ys]"
  let ?args = "[Str ''/p'', Arr ?xs]"
  let ?args' = "[Str ''/p'', Arr [Fun (Wrap3 (Host 1 ''ok'' 3)), Arr ?ys]]"
  have h1: "wrapUseArgs ?args = Inr ?args'"
    by (simp add: wrapUseArgs_def wrapArg_def wrapElem_def wrap_def)
  have h2: "1 < length ?args" by simp
  have h3: "?args ! 1 = Arr ?xs" by simp
  have h4: "1 < length ?xs" by simp
  have h5: "?xs ! 1 = Arr ?ys" by simp
  from wrapUseArgs_leaves_nested_arrays [OF h2 h3 h4 h5, of env_answer 2 "Host 9 ''use'' 1" "App 0" st0]
  have a: "\<exists>xs'. ?args' ! 1 = Arr xs' \<and> xs' ! 1 = Arr ?ys"
    and b: "invoke env_answer 3 (PatchedUse (Fun (Host 9 ''use'' 1))) (App 0) ?args st0 =
            invoke env_answer 2 (Host 9 ''use'' 1) (App 0) ?args' st0"
    unfolding h1 by (simp_all add: eval_nat_numeral)
  from b have "map_option (trace \<circ> snd)
        (invoke env_answer 3 (PatchedUse (Fun (Host 9 ''use'' 1))) (App 0) ?args st0)
       = Some [Enter 9 (App 0) ?args']"
    by (simp add: eval_nat_numeral env_answer_def log_def st0_def)
  with h1 a show ?thesis by simp
qed

section \<open>The setup hook\<close>

text \<open>
  C8. Without an application instance \<open>setupOnce\<close> reports the error to the logger,
  leaves every application's \<^verbatim>\<open>use\<close> as it was and returns normally; with an
  application instance it replaces that application's \<^verbatim>\<open>use\<close> by the interceptor, which
  captures the previous \<^verbatim>\<open>use\<close>.
\<close>

theorem setupOnce_missing_app_or_install:
  "setupOnce (Express_new None) st =
     (Return Undefined,
      st\<lparr>trace := trace st @ [LoggerError ''ExpressIntegration is missing an Express instance'']\<rparr>)
   \<and> apps (snd (setupOnce (Express_new None) st)) = apps st
   \<and> setupOnce (Express_new (Some a)) st =
       (Return Undefined,
        st\<lparr>apps := (apps st)(a := (apps st a)\<lparr>use := Fun (PatchedUse (use (apps st a)))\<rparr>)\<rparr>)
   \<and> instrumentMiddlewares a st =
       (App a, st\<lparr>apps := (apps st)(a := (apps st a)\<lparr>use := Fun (PatchedUse (use (apps st a)))\<rparr>)\<rparr>)"
  by (simp add: setupOnce_def Express_new_def logger_error_def log_def instrumentMiddlewares_def)

end
